theory Spec2Isabelle
  imports Complex_Main
begin

section \<open>Exact inference over a two-parent inheritance graph (heredity.py)\<close>

text \<open>
  Python floats are modelled as exact rationals (\<^typ>\<open>rat\<close>): every statement below is
  about the arithmetic the program denotes, not about IEEE rounding. A Python \<open>dict\<close> is an
  association list in insertion order, a Python \<open>set\<close> of names is a \<^typ>\<open>string set\<close>, and
  a raised exception is the \<open>Inl\<close> branch of a sum.
\<close>

subsection \<open>Errors and dictionaries\<close>

datatype py_error = KeyError | ZeroDivisionError

definition lookup :: "('k \<times> 'v) list \<Rightarrow> 'k \<Rightarrow> py_error + 'v" where
  \<comment> \<open>\<open>d[k]\<close>: raises KeyError when the key is missing.\<close>
  "lookup d k = (case map_of d k of None \<Rightarrow> Inl KeyError | Some v \<Rightarrow> Inr v)"

definition py_div :: "rat \<Rightarrow> rat \<Rightarrow> py_error + rat" where
  \<comment> \<open>\<open>a / b\<close>: raises ZeroDivisionError when the divisor is zero.\<close>
  "py_div a b = (if b = 0 then Inl ZeroDivisionError else Inr (a / b))"

definition bind_err :: "py_error + 'a \<Rightarrow> ('a \<Rightarrow> py_error + 'b) \<Rightarrow> py_error + 'b" where
  "bind_err r f = (case r of Inl e \<Rightarrow> Inl e | Inr v \<Rightarrow> f v)"

fun map_err :: "('a \<Rightarrow> py_error + 'b) \<Rightarrow> 'a list \<Rightarrow> py_error + 'b list" where
  \<comment> \<open>A comprehension or loop whose body may raise: the first exception ends it.\<close>
  "map_err f [] = Inr []"
| "map_err f (x # xs) =
     (case f x of Inl e \<Rightarrow> Inl e
      | Inr y \<Rightarrow> (case map_err f xs of Inl e \<Rightarrow> Inl e | Inr ys \<Rightarrow> Inr (y # ys)))"

subsection \<open>The probability tables \<open>PROBS\<close>\<close>

definition PROBS_gene :: "(nat \<times> rat) list" where
  "PROBS_gene = [(2, 1 / 100), (1, 3 / 100), (0, 96 / 100)]"

definition PROBS_trait :: "(nat \<times> (bool \<times> rat) list) list" where
  "PROBS_trait =
     [(2, [(True, 65 / 100), (False, 35 / 100)]),
      (1, [(True, 56 / 100), (False, 44 / 100)]),
      (0, [(True, 1 / 100), (False, 99 / 100)])]"

definition PROBS_mutation :: rat where
  "PROBS_mutation = 1 / 100"

subsection \<open>The population\<close>

record person =
  name :: string
  mother :: "string option"
  father :: "string option"
  trait :: "bool option"

type_synonym people = "(string \<times> person) list"

subsection \<open>\<open>powerset\<close>\<close>

fun combinations :: "'a list \<Rightarrow> nat \<Rightarrow> 'a list list" where
  \<comment> \<open>\<open>itertools.combinations(s, r)\<close>: the subsequences of length \<open>r\<close>, in the
      lexicographic order of their positions.\<close>
  "combinations xs 0 = [[]]"
| "combinations [] (Suc r) = []"
| "combinations (x # xs) (Suc r) =
     map ((#) x) (combinations xs r) @ combinations xs (Suc r)"

definition powerset :: "'a list \<Rightarrow> 'a set list" where
  \<comment> \<open>The argument is \<open>list(s)\<close>, the elements of the Python set in the order it
      iterates them.\<close>
  "powerset s = map set (concat (map (combinations s) [0..<length s + 1]))"

subsection \<open>\<open>get_genes_count\<close> and \<open>get_pass_prob\<close>\<close>

definition get_genes_count :: "string \<Rightarrow> string set \<Rightarrow> string set \<Rightarrow> nat" where
  "get_genes_count n one_gene two_genes =
     (if n \<in> one_gene then 1 else if n \<in> two_genes then 2 else 0)"

definition parent_genes_count :: "string option \<Rightarrow> string set \<Rightarrow> string set \<Rightarrow> nat" where
  \<comment> \<open>\<open>get_genes_count\<close> at a parent field: \<open>None\<close> belongs to no set of names, so
      both membership tests fail and the count is 0.\<close>
  "parent_genes_count parent one_gene two_genes =
     (case parent of None \<Rightarrow> 0 | Some n \<Rightarrow> get_genes_count n one_gene two_genes)"

definition get_pass_prob :: "nat \<Rightarrow> rat" where
  "get_pass_prob count =
     (if count = 2 then 1 - PROBS_mutation
      else if count = 1 then 1 / 2
      else PROBS_mutation)"

subsection \<open>\<open>joint_probability\<close>\<close>

definition child_genes_probs :: "rat \<Rightarrow> rat \<Rightarrow> (nat \<times> rat) list" where
  "child_genes_probs m_pass_prob f_pass_prob =
     [(2, m_pass_prob * f_pass_prob),
      (1, (m_pass_prob * (1 - f_pass_prob)) + (f_pass_prob * (1 - m_pass_prob))),
      (0, (1 - f_pass_prob) * (1 - m_pass_prob))]"

definition genes_prob :: "person \<Rightarrow> string set \<Rightarrow> string set \<Rightarrow> nat \<Rightarrow> py_error + rat" where
  \<comment> \<open>The factor of the first \<open>p *= ...\<close> of the loop body: the branch on
      \<open>is_parents_data_available = mother is not None\<close>.\<close>
  "genes_prob person one_gene two_genes genes_query =
     (if mother person \<noteq> None then
        (let m_genes = parent_genes_count (mother person) one_gene two_genes;
             f_genes = parent_genes_count (father person) one_gene two_genes;
             m_pass_prob = get_pass_prob m_genes;
             f_pass_prob = get_pass_prob f_genes
         in lookup (child_genes_probs m_pass_prob f_pass_prob) genes_query)
      else lookup PROBS_gene genes_query)"

definition trait_prob :: "nat \<Rightarrow> bool \<Rightarrow> py_error + rat" where
  \<comment> \<open>\<open>PROBS['trait'][genes_query][trait_query]\<close>\<close>
  "trait_prob genes_query trait_query =
     bind_err (lookup PROBS_trait genes_query) (\<lambda>row. lookup row trait_query)"

fun joint_probability_loop ::
  "person list \<Rightarrow> string set \<Rightarrow> string set \<Rightarrow> string set \<Rightarrow> rat \<Rightarrow> py_error + rat" where
  "joint_probability_loop [] one_gene two_genes have_trait p = Inr p"
| "joint_probability_loop (person # rest) one_gene two_genes have_trait p =
     (let genes_query = get_genes_count (name person) one_gene two_genes;
          trait_query = (name person \<in> have_trait)
      in bind_err (genes_prob person one_gene two_genes genes_query) (\<lambda>g.
         bind_err (trait_prob genes_query trait_query) (\<lambda>t.
         joint_probability_loop rest one_gene two_genes have_trait (p * g * t))))"

definition joint_probability ::
  "people \<Rightarrow> string set \<Rightarrow> string set \<Rightarrow> string set \<Rightarrow> py_error + rat" where
  \<comment> \<open>\<open>p = 1.0\<close>, then the loop over \<open>people.values()\<close>.\<close>
  "joint_probability people one_gene two_genes have_trait =
     joint_probability_loop (map snd people) one_gene two_genes have_trait 1"

subsection \<open>The factors of the product, as values\<close>

definition prior_value :: "nat \<Rightarrow> rat" where
  "prior_value g = (if g = 2 then 1 / 100 else if g = 1 then 3 / 100 else 96 / 100)"

definition emission_value :: "nat \<Rightarrow> bool \<Rightarrow> rat" where
  "emission_value g t =
     (if g = 2 then (if t then 65 / 100 else 35 / 100)
      else if g = 1 then (if t then 56 / 100 else 44 / 100)
      else (if t then 1 / 100 else 99 / 100))"

definition child_value :: "rat \<Rightarrow> rat \<Rightarrow> nat \<Rightarrow> rat" where
  "child_value m f g =
     (if g = 2 then m * f
      else if g = 1 then m * (1 - f) + f * (1 - m)
      else (1 - f) * (1 - m))"

definition person_factor ::
  "person \<Rightarrow> string set \<Rightarrow> string set \<Rightarrow> string set \<Rightarrow> rat" where
  "person_factor person one_gene two_genes have_trait =
     (let g = get_genes_count (name person) one_gene two_genes
      in (if mother person \<noteq> None
          then child_value
                 (get_pass_prob (parent_genes_count (mother person) one_gene two_genes))
                 (get_pass_prob (parent_genes_count (father person) one_gene two_genes)) g
          else prior_value g)
         * emission_value g (name person \<in> have_trait))"

subsection \<open>The joint probability as the specification words it\<close>

definition zero_or_two_parents :: "person \<Rightarrow> bool" where
  "zero_or_two_parents person \<longleftrightarrow> (mother person = None \<longleftrightarrow> father person = None)"

definition spec_copies :: "string \<Rightarrow> string set \<Rightarrow> string set \<Rightarrow> nat" where
  \<comment> \<open>Two copies for the members of \<open>two_genes\<close>, one for those of \<open>one_gene\<close>, none
      for the others.\<close>
  "spec_copies n one_gene two_genes =
     (if n \<in> two_genes then 2 else if n \<in> one_gene then 1 else 0)"

definition spec_pass_prob :: "nat \<Rightarrow> rat" where
  \<comment> \<open>\<open>1 - \<epsilon>\<close> with two copies, \<open>0.5\<close> with one, \<open>\<epsilon>\<close> with none; \<open>\<epsilon> = 0.01\<close>.\<close>
  "spec_pass_prob c = (if c = 0 then 1 / 100 else if c = 1 then 1 / 2 else 1 - 1 / 100)"

definition spec_prior :: "nat \<Rightarrow> rat" where
  "spec_prior c = (if c = 0 then 96 / 100 else if c = 1 then 3 / 100 else 1 / 100)"

definition spec_emission :: "nat \<Rightarrow> bool \<Rightarrow> rat" where
  "spec_emission c t =
     (if c = 0 then (if t then 1 / 100 else 99 / 100)
      else if c = 1 then (if t then 56 / 100 else 44 / 100)
      else (if t then 65 / 100 else 35 / 100))"

definition spec_hidden_factor :: "person \<Rightarrow> string set \<Rightarrow> string set \<Rightarrow> rat" where
  "spec_hidden_factor person one_gene two_genes =
     (let c = spec_copies (name person) one_gene two_genes
      in case (mother person, father person) of
           (Some mo, Some fa) \<Rightarrow>
             (let m = spec_pass_prob (spec_copies mo one_gene two_genes);
                  f = spec_pass_prob (spec_copies fa one_gene two_genes)
              in if c = 2 then m * f
                 else if c = 1 then m * (1 - f) + f * (1 - m)
                 else (1 - m) * (1 - f))
         | _ \<Rightarrow> spec_prior c)"

definition spec_emission_factor ::
  "person \<Rightarrow> string set \<Rightarrow> string set \<Rightarrow> string set \<Rightarrow> rat" where
  "spec_emission_factor person one_gene two_genes have_trait =
     spec_emission (spec_copies (name person) one_gene two_genes) (name person \<in> have_trait)"

subsection \<open>The enumeration of \<open>main\<close>\<close>

definition fails_evidence :: "people \<Rightarrow> string list \<Rightarrow> string set \<Rightarrow> bool" where
  \<comment> \<open>\<open>names\<close> are the keys of \<open>people\<close>, so \<open>people[person]\<close> raises nothing.\<close>
  "fails_evidence people names have_trait =
     list_ex (\<lambda>person.
        case map_of people person of
          None \<Rightarrow> False
        | Some r \<Rightarrow> trait r \<noteq> None \<and> trait r \<noteq> Some (person \<in> have_trait)) names"

definition enumerated_triples :: "people \<Rightarrow> (string set \<times> string set \<times> string set) list" where
  \<comment> \<open>The triples \<open>(one_gene, two_genes, have_trait)\<close> at which the loops of \<open>main\<close>
      call \<open>joint_probability\<close>, in the order of the calls. \<open>names = set(people)\<close> is
      listed in the order of the keys, and \<open>names - one_gene\<close> in the same order.\<close>
  "enumerated_triples people =
     (let names = map fst people
      in concat (map (\<lambda>have_trait.
           if fails_evidence people names have_trait then []
           else concat (map (\<lambda>one_gene.
                  map (\<lambda>two_genes. (one_gene, two_genes, have_trait))
                    (powerset (filter (\<lambda>n. n \<notin> one_gene) names)))
                (powerset names)))
         (powerset names)))"

definition total_joint_probability :: "people \<Rightarrow> py_error + rat" where
  \<comment> \<open>The sum of the values \<open>p\<close> that \<open>main\<close> computes, one per enumerated triple.\<close>
  "total_joint_probability people =
     bind_err
       (map_err (\<lambda>(one_gene, two_genes, have_trait).
                   joint_probability people one_gene two_genes have_trait)
          (enumerated_triples people))
       (\<lambda>ps. Inr (sum_list ps))"

subsection \<open>Populations\<close>

definition well_formed_people :: "people \<Rightarrow> bool" where
  \<comment> \<open>What \<open>load_data\<close> builds: a dictionary (no key twice) whose records carry their
      own key as \<open>name\<close>.\<close>
  "well_formed_people people \<longleftrightarrow>
     distinct (map fst people) \<and> list_all (\<lambda>(n, person). name person = n) people"

definition parent_edges :: "people \<Rightarrow> (string \<times> string) list" where
  "parent_edges people =
     concat (map (\<lambda>(n, person).
        (case mother person of None \<Rightarrow> [] | Some m \<Rightarrow> [(m, name person)])
        @ (case father person of None \<Rightarrow> [] | Some f \<Rightarrow> [(f, name person)])) people)"

definition parent_in_population :: "people \<Rightarrow> string option \<Rightarrow> bool" where
  "parent_in_population people parent =
     (case parent of None \<Rightarrow> True | Some n \<Rightarrow> n \<in> set (map fst people))"

definition valid_forest :: "people \<Rightarrow> bool" where
  \<comment> \<open>Every member has zero or two parents, both among the population, and no member
      is its own ancestor.\<close>
  "valid_forest people \<longleftrightarrow>
     list_all (\<lambda>(n, person).
        zero_or_two_parents person
        \<and> parent_in_population people (mother person)
        \<and> parent_in_population people (father person)) people
     \<and> acyclic (set (parent_edges people))"

definition no_evidence :: "people \<Rightarrow> bool" where
  "no_evidence people \<longleftrightarrow> list_all (\<lambda>(n, person). trait person = None) people"

subsection \<open>\<open>normalize\<close>\<close>

text \<open>
  \<open>probabilities[name]\<close> is a dictionary with the two keys \<open>"gene"\<close> and \<open>"trait"\<close>:
  the record \<open>marginals\<close>, with \<open>gene_probs\<close> for \<open>probabilities[name]["gene"]\<close> and
  \<open>trait_probs\<close> for \<open>probabilities[name]["trait"]\<close>.
\<close>

record marginals =
  gene_probs :: "(nat \<times> rat) list"
  trait_probs :: "(bool \<times> rat) list"

type_synonym probabilities = "(string \<times> marginals) list"

definition sum_values :: "('k \<times> rat) list \<Rightarrow> rat" where
  \<comment> \<open>\<open>sum(d.values())\<close>\<close>
  "sum_values d = sum_list (map snd d)"

definition normalize_member :: "marginals \<Rightarrow> py_error + marginals" where
  \<comment> \<open>The body of the loop of \<open>normalize\<close> at one name.\<close>
  "normalize_member m =
     (let genes_probs_sum = sum_values (gene_probs m);
          trait_probs_sum = sum_values (trait_probs m)
      in bind_err
           (map_err (\<lambda>count.
                bind_err (lookup (gene_probs m) count) (\<lambda>w.
                bind_err (py_div w genes_probs_sum) (\<lambda>q. Inr (count, q))))
              [2, 1, 0]) (\<lambda>gene'.
         bind_err (lookup (trait_probs m) True) (\<lambda>wt.
         bind_err (py_div wt trait_probs_sum) (\<lambda>qt.
         bind_err (lookup (trait_probs m) False) (\<lambda>wf.
         bind_err (py_div wf trait_probs_sum) (\<lambda>qf.
         Inr \<lparr>gene_probs = gene', trait_probs = [(True, qt), (False, qf)]\<rparr>))))))"

definition normalize :: "probabilities \<Rightarrow> py_error + probabilities" where
  "normalize probabilities =
     map_err (\<lambda>(n, m). bind_err (normalize_member m) (\<lambda>m'. Inr (n, m'))) probabilities"

definition marginals_shape :: "marginals \<Rightarrow> bool" where
  \<comment> \<open>The keys of the two dictionaries that \<open>main\<close> creates for each person.\<close>
  "marginals_shape m \<longleftrightarrow>
     map fst (gene_probs m) = [2, 1, 0] \<and> map fst (trait_probs m) = [True, False]"

definition rescale :: "('k \<times> rat) list \<Rightarrow> ('k \<times> rat) list" where
  \<comment> \<open>Every weight of one distribution divided by the sum of that distribution.\<close>
  "rescale d = map (\<lambda>(k, w). (k, w / sum_values d)) d"

subsection \<open>Sums over configurations\<close>

text \<open>
  The sum over the pairs of disjoint subsets \<open>(one_gene, two_genes)\<close> of a set of
  names, the sum over the triples with \<open>have_trait\<close>, and the parent relation of a set of
  members.
\<close>

definition pair_sum :: "string set \<Rightarrow> (string set \<Rightarrow> string set \<Rightarrow> rat) \<Rightarrow> rat" where
  "pair_sum S H = (\<Sum>U\<in>Pow S. \<Sum>W\<in>Pow (S - U). H U W)"

definition triple_sum ::
  "string set \<Rightarrow> (string set \<Rightarrow> string set \<Rightarrow> string set \<Rightarrow> rat) \<Rightarrow> rat" where
  "triple_sum S F = (\<Sum>T\<in>Pow S. pair_sum S (\<lambda>U W. F U W T))"

definition edges :: "person set \<Rightarrow> (string \<times> string) set" where
  "edges P = {(m, name p) | m p. p \<in> P \<and> (mother p = Some m \<or> father p = Some m)}"

subsection \<open>A family of three\<close>

definition family :: people where
  "family =
     [(''Harry'', \<lparr>name = ''Harry'', mother = Some ''Lily'', father = Some ''James'',
                  trait = None\<rparr>),
      (''James'', \<lparr>name = ''James'', mother = None, father = None, trait = None\<rparr>),
      (''Lily'', \<lparr>name = ''Lily'', mother = None, father = None, trait = None\<rparr>)]"

definition family_weights :: probabilities where
  "family_weights =
     [(''Harry'', \<lparr>gene_probs = [(2, 1 / 100), (1, 3 / 100), (0, 1 / 100)],
                  trait_probs = [(True, 2 / 100), (False, 3 / 100)]\<rparr>),
      (''James'', \<lparr>gene_probs = [(2, 0), (1, 1 / 4), (0, 1 / 4)],
                  trait_probs = [(True, 1 / 2), (False, 0)]\<rparr>)]"

section \<open>The joint probability is a product of per-member factors\<close>

lemma get_genes_count_le: "get_genes_count n one_gene two_genes \<le> 2"
  by (simp add: get_genes_count_def)

lemma lookup_PROBS_gene: "g \<le> 2 \<Longrightarrow> lookup PROBS_gene g = Inr (prior_value g)"
proof -
  assume "g \<le> 2"
  then have "g = 0 \<or> g = 1 \<or> g = 2" by arith
  then show ?thesis
    by (auto simp: lookup_def PROBS_gene_def prior_value_def)
qed

lemma lookup_child_genes_probs:
  "g \<le> 2 \<Longrightarrow> lookup (child_genes_probs m f) g = Inr (child_value m f g)"
proof -
  assume "g \<le> 2"
  then have "g = 0 \<or> g = 1 \<or> g = 2" by arith
  then show ?thesis
    by (auto simp: lookup_def child_genes_probs_def child_value_def)
qed

lemma trait_prob_value: "g \<le> 2 \<Longrightarrow> trait_prob g t = Inr (emission_value g t)"
proof -
  assume "g \<le> 2"
  then have "g = 0 \<or> g = 1 \<or> g = 2" by arith
  then show ?thesis
    by (cases t) (auto simp: trait_prob_def bind_err_def lookup_def PROBS_trait_def
        emission_value_def)
qed

lemma genes_prob_value:
  "g \<le> 2 \<Longrightarrow> genes_prob person one_gene two_genes g =
     Inr (if mother person \<noteq> None
          then child_value
                 (get_pass_prob (parent_genes_count (mother person) one_gene two_genes))
                 (get_pass_prob (parent_genes_count (father person) one_gene two_genes)) g
          else prior_value g)"
  by (simp add: genes_prob_def lookup_PROBS_gene lookup_child_genes_probs)

lemma joint_probability_loop_value:
  "joint_probability_loop ps one_gene two_genes have_trait p =
     Inr (p * (\<Prod>person\<leftarrow>ps. person_factor person one_gene two_genes have_trait))"
proof (induction ps arbitrary: p)
  case Nil
  show ?case by simp
next
  case (Cons person rest)
  show ?case
    by (simp add: Let_def genes_prob_value trait_prob_value get_genes_count_le
        bind_err_def Cons.IH person_factor_def mult.assoc)
qed

lemma joint_probability_value:
  "joint_probability people one_gene two_genes have_trait =
     Inr (\<Prod>person\<leftarrow>map snd people. person_factor person one_gene two_genes have_trait)"
  by (simp add: joint_probability_def joint_probability_loop_value)

lemma spec_copies_eq:
  "one_gene \<inter> two_genes = {} \<Longrightarrow>
     spec_copies n one_gene two_genes = get_genes_count n one_gene two_genes"
  by (auto simp: spec_copies_def get_genes_count_def)

lemma spec_pass_prob_eq: "c \<le> 2 \<Longrightarrow> spec_pass_prob c = get_pass_prob c"
proof -
  assume "c \<le> 2"
  then have "c = 0 \<or> c = 1 \<or> c = 2" by arith
  then show ?thesis
    by (auto simp: spec_pass_prob_def get_pass_prob_def PROBS_mutation_def)
qed

lemma spec_prior_eq: "c \<le> 2 \<Longrightarrow> spec_prior c = prior_value c"
proof -
  assume "c \<le> 2"
  then have "c = 0 \<or> c = 1 \<or> c = 2" by arith
  then show ?thesis
    by (auto simp: spec_prior_def prior_value_def)
qed

lemma spec_emission_eq: "c \<le> 2 \<Longrightarrow> spec_emission c t = emission_value c t"
proof -
  assume "c \<le> 2"
  then have "c = 0 \<or> c = 1 \<or> c = 2" by arith
  then show ?thesis
    by (auto simp: spec_emission_def emission_value_def)
qed

lemma spec_factors_eq:
  assumes dis: "one_gene \<inter> two_genes = {}" and par: "zero_or_two_parents person"
  shows "spec_hidden_factor person one_gene two_genes
           * spec_emission_factor person one_gene two_genes have_trait
         = person_factor person one_gene two_genes have_trait"
proof (cases "mother person")
  case None
  with par have "father person = None" by (simp add: zero_or_two_parents_def)
  with None show ?thesis
    by (simp add: spec_hidden_factor_def spec_emission_factor_def person_factor_def
        spec_copies_eq [OF dis] spec_prior_eq spec_emission_eq get_genes_count_le Let_def)
next
  case (Some mo)
  with par obtain fa where fa: "father person = Some fa"
    by (auto simp: zero_or_two_parents_def)
  show ?thesis
    by (simp add: Some fa spec_hidden_factor_def spec_emission_factor_def person_factor_def
        spec_copies_eq [OF dis] spec_pass_prob_eq spec_emission_eq get_genes_count_le
        parent_genes_count_def child_value_def Let_def mult.commute)
qed

text \<open>
  Claim C2. For every population whose members have zero or two parents and every
  configuration with \<open>one_gene\<close> and \<open>two_genes\<close> disjoint, \<open>joint_probability\<close> raises
  nothing and returns the product, over the members in the order of the dictionary, of
  the hidden factor times the emission factor as the specification words them: the prior
  table value for a parentless member; for a member with two parents \<open>m * f\<close>,
  \<open>m * (1 - f) + f * (1 - m)\<close> or \<open>(1 - m) * (1 - f)\<close> for two, one or no copies,
  with \<open>m\<close> and \<open>f\<close> the parents' pass probabilities (\<open>1 - \<epsilon>\<close>, \<open>0.5\<close>, \<open>\<epsilon>\<close> for
  two, one, no copies); and the emission table value of the member's trait given its
  copy count.
\<close>

theorem joint_probability_is_product_of_factors:
  assumes "one_gene \<inter> two_genes = {}"
    and "list_all zero_or_two_parents (map snd people)"
  shows "joint_probability people one_gene two_genes have_trait =
           Inr (\<Prod>person\<leftarrow>map snd people.
                  spec_hidden_factor person one_gene two_genes
                  * spec_emission_factor person one_gene two_genes have_trait)"
proof -
  have "map (\<lambda>person. spec_hidden_factor person one_gene two_genes
                  * spec_emission_factor person one_gene two_genes have_trait) (map snd people)
        = map (\<lambda>person. person_factor person one_gene two_genes have_trait) (map snd people)"
    using assms by (intro map_cong refl spec_factors_eq) (auto simp: list_all_iff)
  then show ?thesis
    by (simp only: joint_probability_value)
qed

text \<open>The value at one configuration of the family of three: \<open>0.0026643247488\<close>.\<close>

theorem joint_probability_is_product_of_factors_witness:
  "{''Harry''} \<inter> {''James''} = ({}::string set)
   \<and> list_all zero_or_two_parents (map snd family)
   \<and> joint_probability family {''Harry''} {''James''} {''James''} =
           Inr (\<Prod>person\<leftarrow>map snd family.
                  spec_hidden_factor person {''Harry''} {''James''}
                  * spec_emission_factor person {''Harry''} {''James''} {''James''})"
proof -
  have d: "{''Harry''} \<inter> {''James''} = ({}::string set)" by simp
  have z: "list_all zero_or_two_parents (map snd family)"
    by (simp add: family_def zero_or_two_parents_def)
  show ?thesis
    using d z joint_probability_is_product_of_factors [OF d z] by blast
qed

lemma joint_probability_family_value:
  "joint_probability family {''Harry''} {''James''} {''James''}
     = Inr (26643247488 / 10000000000000)"
  by (simp add: joint_probability_value family_def person_factor_def get_genes_count_def
      parent_genes_count_def get_pass_prob_def PROBS_mutation_def child_value_def
      prior_value_def emission_value_def)

section \<open>The enumeration of \<open>powerset\<close>\<close>

text \<open>
  \<open>powerset\<close> lists every subset once, whatever the order in which the set is listed, so
  a sum over its result is a sum over the powerset.
\<close>

lemma sum_list_map_concat:
  fixes g :: "'a \<Rightarrow> rat"
  shows "(\<Sum>x\<leftarrow>concat xss. g x) = (\<Sum>xs\<leftarrow>xss. \<Sum>x\<leftarrow>xs. g x)"
  by (induction xss) simp_all

lemma filter_length_0_subseqs: "filter (\<lambda>ys. ys = []) (subseqs xs) = [[]]"
proof (induction xs)
  case Nil
  show ?case by simp
next
  case (Cons x xs)
  have "filter (\<lambda>ys. ys = []) (map ((#) x) (subseqs xs)) = []"
    by (simp add: filter_map comp_def)
  with Cons show ?case by (simp add: Let_def)
qed

lemma combinations_filter_subseqs:
  "combinations xs r = filter (\<lambda>ys. length ys = r) (subseqs xs)"
proof (induction xs r rule: combinations.induct)
  case (1 xs)
  show ?case by (simp add: filter_length_0_subseqs)
next
  case (2 r)
  show ?case by simp
next
  case (3 x xs r)
  then show ?case by (simp add: Let_def filter_map comp_def)
qed

lemma sum_list_pick_length:
  fixes g :: "'a list \<Rightarrow> rat"
  assumes "length y < n"
  shows "(\<Sum>r\<leftarrow>[0..<n]. if length y = r then g y else 0) = g y"
proof -
  have "(\<Sum>r\<leftarrow>[0..<n]. if length y = r then g y else 0)
        = (\<Sum>r\<in>{0..<n}. if length y = r then g y else 0)"
    by (simp add: sum_list_distinct_conv_sum_set)
  also have "\<dots> = g y" using assms by simp
  finally show ?thesis .
qed

lemma sum_list_by_length:
  fixes g :: "'a list \<Rightarrow> rat"
  assumes "\<forall>ys \<in> set L. length ys < n"
  shows "(\<Sum>r\<leftarrow>[0..<n]. \<Sum>ys\<leftarrow>filter (\<lambda>ys. length ys = r) L. g ys) = (\<Sum>ys\<leftarrow>L. g ys)"
  using assms
proof (induction L)
  case Nil
  show ?case by simp
next
  case (Cons y L)
  have "(\<Sum>r\<leftarrow>[0..<n]. \<Sum>ys\<leftarrow>filter (\<lambda>ys. length ys = r) (y # L). g ys)
        = (\<Sum>r\<leftarrow>[0..<n]. (if length y = r then g y else 0)
                          + (\<Sum>ys\<leftarrow>filter (\<lambda>ys. length ys = r) L. g ys))"
    by (intro arg_cong [where f = sum_list] map_cong refl) simp
  also have "\<dots> = (\<Sum>r\<leftarrow>[0..<n]. if length y = r then g y else 0)
                  + (\<Sum>r\<leftarrow>[0..<n]. \<Sum>ys\<leftarrow>filter (\<lambda>ys. length ys = r) L. g ys)"
    by (simp add: sum_list_addf)
  also have "\<dots> = g y + (\<Sum>ys\<leftarrow>L. g ys)"
    using Cons by (simp add: sum_list_pick_length)
  finally show ?case by simp
qed

lemma length_subseqs_member: "ys \<in> set (subseqs xs) \<Longrightarrow> length ys \<le> length xs"
  by (induction xs arbitrary: ys) (auto simp: Let_def le_SucI)

lemma sum_list_powerset_subseqs:
  fixes F :: "'a set \<Rightarrow> rat"
  shows "(\<Sum>A\<leftarrow>powerset xs. F A) = (\<Sum>ys\<leftarrow>subseqs xs. F (set ys))"
proof -
  have "(\<Sum>A\<leftarrow>powerset xs. F A)
        = (\<Sum>r\<leftarrow>[0..<length xs + 1]. \<Sum>ys\<leftarrow>filter (\<lambda>ys. length ys = r) (subseqs xs). F (set ys))"
    by (simp add: powerset_def combinations_filter_subseqs sum_list_map_concat comp_def
        del: upt_Suc)
  also have "\<dots> = (\<Sum>ys\<leftarrow>subseqs xs. F (set ys))"
    by (rule sum_list_by_length) (auto dest: length_subseqs_member)
  finally show ?thesis .
qed

lemma sum_list_powerset:
  fixes F :: "'a set \<Rightarrow> rat"
  assumes "distinct xs"
  shows "(\<Sum>A\<leftarrow>powerset xs. F A) = (\<Sum>A\<in>Pow (set xs). F A)"
proof -
  have "(\<Sum>ys\<leftarrow>subseqs xs. F (set ys)) = (\<Sum>A\<leftarrow>map set (subseqs xs). F A)"
    by (simp add: comp_def)
  also have "\<dots> = (\<Sum>A\<in>set (map set (subseqs xs)). F A)"
    by (rule sum_list_distinct_conv_sum_set [OF distinct_set_subseqs [OF assms]])
  also have "set (map set (subseqs xs)) = Pow (set xs)"
    by (simp add: subseqs_powset)
  finally show ?thesis by (simp add: sum_list_powerset_subseqs)
qed

section \<open>Without evidence the joint probabilities sum to 1\<close>

lemma sum_Pow_insert:
  fixes f :: "'a set \<Rightarrow> rat"
  assumes fin: "finite S" and z: "z \<notin> S"
  shows "(\<Sum>A\<in>Pow (insert z S). f A) = (\<Sum>A\<in>Pow S. f A + f (insert z A))"
proof -
  have inj: "inj_on (insert z) (Pow S)"
    using z by (auto simp: inj_on_def)
  have dis: "Pow S \<inter> insert z ` Pow S = {}"
    using z by auto
  have "(\<Sum>A\<in>Pow (insert z S). f A) = (\<Sum>A\<in>Pow S \<union> insert z ` Pow S. f A)"
    by (simp add: Pow_insert)
  also have "\<dots> = (\<Sum>A\<in>Pow S. f A) + (\<Sum>A\<in>insert z ` Pow S. f A)"
    using fin dis by (intro sum.union_disjoint) auto
  also have "(\<Sum>A\<in>insert z ` Pow S. f A) = (\<Sum>A\<in>Pow S. f (insert z A))"
    using inj by (simp add: sum.reindex)
  finally show ?thesis by (simp add: sum.distrib)
qed

lemma pair_sum_insert:
  assumes fin: "finite S" and z: "z \<notin> S"
  shows "pair_sum (insert z S) H
         = pair_sum S (\<lambda>U W. H U W + H U (insert z W) + H (insert z U) W)"
proof -
  have "pair_sum (insert z S) H
        = (\<Sum>U\<in>Pow S. (\<Sum>W\<in>Pow (insert z S - U). H U W)
                       + (\<Sum>W\<in>Pow (insert z S - insert z U). H (insert z U) W))"
    unfolding pair_sum_def by (rule sum_Pow_insert [OF fin z])
  also have "\<dots> = (\<Sum>U\<in>Pow S. \<Sum>W\<in>Pow (S - U). H U W + H U (insert z W) + H (insert z U) W)"
  proof (rule sum.cong [OF refl])
    fix A assume "A \<in> Pow S"
    with z have zA: "z \<notin> A" by auto
    have e1: "insert z S - A = insert z (S - A)" using zA by auto
    have e2: "insert z S - insert z A = S - A" using z by auto
    have "(\<Sum>W\<in>Pow (insert z (S - A)). H A W) = (\<Sum>W\<in>Pow (S - A). H A W + H A (insert z W))"
      using fin z by (intro sum_Pow_insert) auto
    then show "(\<Sum>W\<in>Pow (insert z S - A). H A W)
                 + (\<Sum>W\<in>Pow (insert z S - insert z A). H (insert z A) W)
               = (\<Sum>W\<in>Pow (S - A). H A W + H A (insert z W) + H (insert z A) W)"
      by (simp add: e1 e2 sum.distrib)
  qed
  finally show ?thesis by (simp add: pair_sum_def)
qed

lemma triple_sum_insert:
  assumes fin: "finite S" and z: "z \<notin> S"
  shows "triple_sum (insert z S) F
         = triple_sum S (\<lambda>U W T.
             (F U W T + F U (insert z W) T + F (insert z U) W T)
             + (F U W (insert z T) + F U (insert z W) (insert z T)
                + F (insert z U) W (insert z T)))"
proof -
  have "triple_sum (insert z S) F
        = (\<Sum>T\<in>Pow S. pair_sum (insert z S) (\<lambda>U W. F U W T)
                       + pair_sum (insert z S) (\<lambda>U W. F U W (insert z T)))"
    unfolding triple_sum_def by (rule sum_Pow_insert [OF fin z])
  also have "\<dots> = (\<Sum>T\<in>Pow S.
        pair_sum S (\<lambda>U W. F U W T + F U (insert z W) T + F (insert z U) W T)
        + pair_sum S (\<lambda>U W. F U W (insert z T) + F U (insert z W) (insert z T)
                + F (insert z U) W (insert z T)))"
    by (simp add: pair_sum_insert [OF fin z])
  also have "\<dots> = triple_sum S (\<lambda>U W T.
             (F U W T + F U (insert z W) T + F (insert z U) W T)
             + (F U W (insert z T) + F U (insert z W) (insert z T)
                + F (insert z U) W (insert z T)))"
    by (simp add: triple_sum_def pair_sum_def sum.distrib)
  finally show ?thesis .
qed

lemma triple_sum_cong:
  assumes "\<And>U W T. U \<subseteq> S \<Longrightarrow> W \<subseteq> S - U \<Longrightarrow> T \<subseteq> S \<Longrightarrow> F U W T = G U W T"
  shows "triple_sum S F = triple_sum S G"
  unfolding triple_sum_def pair_sum_def
  by (intro sum.cong refl assms) auto

lemma triple_sum_empty: "triple_sum {} F = F {} {} {}"
  by (simp add: triple_sum_def pair_sum_def)


lemma child_value_total: "child_value m f 0 + child_value m f 1 + child_value m f 2 = 1"
  by (simp add: child_value_def algebra_simps)

lemma prior_value_total: "prior_value 0 + prior_value 1 + prior_value 2 = 1"
  by (simp add: prior_value_def)

lemma emission_value_total: "emission_value g False + emission_value g True = 1"
  by (simp add: emission_value_def)

lemma parent_genes_count_insert:
  assumes "parent \<noteq> Some z"
  shows "parent_genes_count parent (insert z U) W = parent_genes_count parent U W"
    and "parent_genes_count parent U (insert z W) = parent_genes_count parent U W"
  using assms by (cases parent; simp add: parent_genes_count_def get_genes_count_def)+

lemma person_factor_six_terms:
  assumes z: "name p \<notin> U" "name p \<notin> W" "name p \<notin> T"
    and m: "mother p \<noteq> Some (name p)" and f: "father p \<noteq> Some (name p)"
  shows "(person_factor p U W T + person_factor p U (insert (name p) W) T
            + person_factor p (insert (name p) U) W T)
         + (person_factor p U W (insert (name p) T)
            + person_factor p U (insert (name p) W) (insert (name p) T)
            + person_factor p (insert (name p) U) W (insert (name p) T)) = 1"
proof -
  define h where "h g = (if mother p \<noteq> None
          then child_value
                 (get_pass_prob (parent_genes_count (mother p) U W))
                 (get_pass_prob (parent_genes_count (father p) U W)) g
          else prior_value g)" for g
  have h: "h 0 + h 1 + h 2 = 1"
    using child_value_total prior_value_total by (simp add: h_def)
  have g0: "get_genes_count (name p) U W = 0"
    and g1: "get_genes_count (name p) (insert (name p) U) W = 1"
    and g2: "get_genes_count (name p) U (insert (name p) W) = 2"
    using z by (simp_all add: get_genes_count_def)
  have t: "name p \<in> T \<longleftrightarrow> False" using z by simp
  have "(person_factor p U W T + person_factor p U (insert (name p) W) T
            + person_factor p (insert (name p) U) W T)
         + (person_factor p U W (insert (name p) T)
            + person_factor p U (insert (name p) W) (insert (name p) T)
            + person_factor p (insert (name p) U) W (insert (name p) T))
        = (h 0 * emission_value 0 False + h 2 * emission_value 2 False
            + h 1 * emission_value 1 False)
          + (h 0 * emission_value 0 True + h 2 * emission_value 2 True
            + h 1 * emission_value 1 True)"
    unfolding person_factor_def Let_def g0 g1 g2 h_def t
      parent_genes_count_insert [OF m] parent_genes_count_insert [OF f]
    by simp
  also have "\<dots> = h 0 * (emission_value 0 False + emission_value 0 True)
                  + h 1 * (emission_value 1 False + emission_value 1 True)
                  + h 2 * (emission_value 2 False + emission_value 2 True)"
    by (simp add: algebra_simps)
  also have "\<dots> = 1"
    by (simp only: emission_value_total mult_1_right h)
  finally show ?thesis .
qed

lemma person_factor_insert_other:
  assumes "name p \<noteq> z" "mother p \<noteq> Some z" "father p \<noteq> Some z"
  shows "person_factor p (insert z U) W T = person_factor p U W T"
    and "person_factor p U (insert z W) T = person_factor p U W T"
    and "person_factor p U W (insert z T) = person_factor p U W T"
  using assms
  by (simp_all add: person_factor_def Let_def parent_genes_count_insert get_genes_count_def)

lemma childless_member:
  assumes fin: "finite P" and ne: "P \<noteq> {}" and ac: "acyclic (edges P)"
  obtains z where "z \<in> P"
    and "\<forall>p \<in> P. mother p \<noteq> Some (name z) \<and> father p \<noteq> Some (name z)"
proof -
  have "edges P \<subseteq> (\<lambda>p. (the (mother p), name p)) ` P \<union> (\<lambda>p. (the (father p), name p)) ` P"
    by (auto simp: edges_def image_iff) force+
  then have "finite (edges P)"
    by (rule finite_subset) (simp add: fin)
  then have "wf ((edges P)\<inverse>)"
    using ac by (rule finite_acyclic_wf_converse)
  moreover from ne obtain q where "q \<in> P" by auto
  then have "name q \<in> name ` P" by simp
  ultimately obtain n where n: "n \<in> name ` P"
    and min: "\<And>y. (y, n) \<in> (edges P)\<inverse> \<Longrightarrow> y \<notin> name ` P"
    by (rule wfE_min) blast
  from n obtain z where z: "z \<in> P" "name z = n" by auto
  have "\<forall>p \<in> P. mother p \<noteq> Some (name z) \<and> father p \<noteq> Some (name z)"
  proof (intro ballI conjI notI)
    fix p assume p: "p \<in> P" and "mother p = Some (name z)"
    then have "(name p, n) \<in> (edges P)\<inverse>" using z by (auto simp: edges_def)
    from min [OF this] p show False by simp
  next
    fix p assume p: "p \<in> P" and "father p = Some (name z)"
    then have "(name p, n) \<in> (edges P)\<inverse>" using z by (auto simp: edges_def)
    from min [OF this] p show False by simp
  qed
  with z show ?thesis using that by blast
qed


lemma triple_sum_members:
  assumes "finite P" and "inj_on name P" and "acyclic (edges P)"
  shows "triple_sum (name ` P) (\<lambda>U W T. \<Prod>p\<in>P. person_factor p U W T) = 1"
  using assms
proof (induction "card P" arbitrary: P)
  case 0
  then have "P = {}" by simp
  then show ?case by (simp add: triple_sum_empty)
next
  case (Suc k)
  from Suc.hyps(2) have ne: "P \<noteq> {}" by auto
  from childless_member [OF Suc.prems(1) ne Suc.prems(3)]
  obtain z where z: "z \<in> P"
    and leaf: "\<forall>p \<in> P. mother p \<noteq> Some (name z) \<and> father p \<noteq> Some (name z)"
    by blast
  define Q where "Q = P - {z}"
  have P: "P = insert z Q" and zQ: "z \<notin> Q" using z by (auto simp: Q_def)
  have finQ: "finite Q" using Suc.prems(1) by (simp add: Q_def)
  have injQ: "inj_on name Q"
    using Suc.prems(2) by (auto simp: Q_def inj_on_def)
  have "edges Q \<subseteq> edges P" by (auto simp: edges_def Q_def)
  with Suc.prems(3) have acQ: "acyclic (edges Q)" by (rule acyclic_subset)
  have cardQ: "k = card Q"
    using Suc.hyps(2) z Suc.prems(1) by (simp add: Q_def)
  have IH: "triple_sum (name ` Q) (\<lambda>U W T. \<Prod>p\<in>Q. person_factor p U W T) = 1"
    by (rule Suc.hyps(1) [OF cardQ finQ injQ acQ])
  have nz: "name z \<notin> name ` Q"
    using Suc.prems(2) z by (auto simp: Q_def inj_on_def)
  have other: "name p \<noteq> name z \<and> mother p \<noteq> Some (name z) \<and> father p \<noteq> Some (name z)"
    if "p \<in> Q" for p
  proof -
    from that have "name p \<in> name ` Q" by simp
    with nz have "name p \<noteq> name z" by metis
    moreover from that have "p \<in> P" by (simp add: Q_def)
    ultimately show ?thesis using leaf by simp
  qed
  have self: "mother z \<noteq> Some (name z)" "father z \<noteq> Some (name z)"
    using leaf z by auto
  let ?F = "\<lambda>U W T. \<Prod>p\<in>P. person_factor p U W T"
  let ?R = "\<lambda>U W T. \<Prod>p\<in>Q. person_factor p U W T"
  have split: "?F U W T = person_factor z U W T * (\<Prod>p\<in>Q. person_factor p U W T)" for U W T
    using finQ zQ by (simp add: P)
  have rest:
    "(\<Prod>p\<in>Q. person_factor p (insert (name z) U) W T) = ?R U W T"
    "(\<Prod>p\<in>Q. person_factor p U (insert (name z) W) T) = ?R U W T"
    "(\<Prod>p\<in>Q. person_factor p U W (insert (name z) T)) = ?R U W T" for U W T
    by (rule prod.cong [OF refl], simp add: person_factor_insert_other other)+
  have "triple_sum (name ` P) ?F = triple_sum (insert (name z) (name ` Q)) ?F"
    by (simp add: P)
  also have "\<dots> = triple_sum (name ` Q) (\<lambda>U W T.
             (?F U W T + ?F U (insert (name z) W) T + ?F (insert (name z) U) W T)
             + (?F U W (insert (name z) T) + ?F U (insert (name z) W) (insert (name z) T)
                + ?F (insert (name z) U) W (insert (name z) T)))"
    by (rule triple_sum_insert) (simp_all add: finQ nz)
  also have "\<dots> = triple_sum (name ` Q) ?R"
  proof (rule triple_sum_cong)
    fix U W T
    assume U: "U \<subseteq> name ` Q" and W: "W \<subseteq> name ` Q - U" and T: "T \<subseteq> name ` Q"
    from nz U W T have out: "name z \<notin> U" "name z \<notin> W" "name z \<notin> T" by auto
    have "(?F U W T + ?F U (insert (name z) W) T + ?F (insert (name z) U) W T)
             + (?F U W (insert (name z) T) + ?F U (insert (name z) W) (insert (name z) T)
                + ?F (insert (name z) U) W (insert (name z) T))
          = ((person_factor z U W T + person_factor z U (insert (name z) W) T
                + person_factor z (insert (name z) U) W T)
             + (person_factor z U W (insert (name z) T)
                + person_factor z U (insert (name z) W) (insert (name z) T)
                + person_factor z (insert (name z) U) W (insert (name z) T))) * ?R U W T"
      unfolding split rest by (simp only: distrib_right)
    also have "\<dots> = ?R U W T"
      by (simp only: person_factor_six_terms [OF out self] mult_1)
    finally show "(?F U W T + ?F U (insert (name z) W) T + ?F (insert (name z) U) W T)
             + (?F U W (insert (name z) T) + ?F U (insert (name z) W) (insert (name z) T)
                + ?F (insert (name z) U) W (insert (name z) T)) = ?R U W T" .
  qed
  also note IH
  finally show ?case .
qed


lemma map_err_all_Inr:
  assumes "\<forall>x \<in> set xs. f x = Inr (g x)"
  shows "map_err f xs = Inr (map g xs)"
  using assms by (induction xs) simp_all

lemma total_joint_probability_value:
  "total_joint_probability people =
     Inr (\<Sum>(U, W, T)\<leftarrow>enumerated_triples people.
            \<Prod>person\<leftarrow>map snd people. person_factor person U W T)"
proof -
  have "map_err (\<lambda>(U, W, T). joint_probability people U W T) (enumerated_triples people)
        = Inr (map (\<lambda>(U, W, T). \<Prod>person\<leftarrow>map snd people. person_factor person U W T)
                 (enumerated_triples people))"
    by (rule map_err_all_Inr) (auto simp: joint_probability_value)
  then show ?thesis
    by (simp add: total_joint_probability_def bind_err_def)
qed

lemma no_evidence_never_fails:
  assumes "no_evidence people"
  shows "\<not> fails_evidence people names T"
proof -
  have "trait r = None" if "map_of people n = Some r" for n r
    using assms map_of_SomeD [OF that] by (auto simp: no_evidence_def list_all_iff)
  then show ?thesis
    by (auto simp: fails_evidence_def list_ex_iff split: option.splits)
qed

lemma sum_list_enumerated_triples:
  fixes g :: "string set \<Rightarrow> string set \<Rightarrow> string set \<Rightarrow> rat"
  assumes ne: "no_evidence people" and dis: "distinct (map fst people)"
  shows "(\<Sum>(U, W, T)\<leftarrow>enumerated_triples people. g U W T)
         = triple_sum (set (map fst people)) g"
proof -
  let ?names = "map fst people"
  have inner: "(\<Sum>W\<leftarrow>powerset (filter (\<lambda>n. n \<notin> U) ?names). g U W T)
               = (\<Sum>W\<in>Pow (set ?names - U). g U W T)" for U T
  proof -
    have "distinct (filter (\<lambda>n. n \<notin> U) ?names)" using dis by simp
    moreover have "set (filter (\<lambda>n. n \<notin> U) ?names) = set ?names - U" by auto
    ultimately show ?thesis by (simp add: sum_list_powerset)
  qed
  have "(\<Sum>(U, W, T)\<leftarrow>enumerated_triples people. g U W T)
        = (\<Sum>T\<leftarrow>powerset ?names. \<Sum>U\<leftarrow>powerset ?names.
             \<Sum>W\<leftarrow>powerset (filter (\<lambda>n. n \<notin> U) ?names). g U W T)"
    by (simp add: enumerated_triples_def Let_def no_evidence_never_fails [OF ne]
        sum_list_map_concat comp_def)
  also have "\<dots> = (\<Sum>T\<leftarrow>powerset ?names. \<Sum>U\<leftarrow>powerset ?names.
                      \<Sum>W\<in>Pow (set ?names - U). g U W T)"
    by (simp only: inner)
  also have "\<dots> = (\<Sum>T\<in>Pow (set ?names). \<Sum>U\<in>Pow (set ?names).
                      \<Sum>W\<in>Pow (set ?names - U). g U W T)"
    by (simp only: sum_list_powerset [OF dis])
  finally show ?thesis by (simp only: triple_sum_def pair_sum_def)
qed

lemma well_formed_names:
  assumes "well_formed_people people"
  shows "map name (map snd people) = map fst people"
  using assms by (induction people) (auto simp: well_formed_people_def)

lemma edges_parent_edges: "edges (set (map snd people)) \<subseteq> set (parent_edges people)"
proof (rule subsetI)
  fix e assume "e \<in> edges (set (map snd people))"
  then obtain m p where e: "e = (m, name p)" and p: "p \<in> set (map snd people)"
    and par: "mother p = Some m \<or> father p = Some m"
    by (auto simp: edges_def)
  from p obtain n where np: "(n, p) \<in> set people" by auto
  define f :: "string \<times> person \<Rightarrow> (string \<times> string) list" where
    "f = (\<lambda>(n, person).
        (case mother person of None \<Rightarrow> [] | Some m \<Rightarrow> [(m, name person)])
        @ (case father person of None \<Rightarrow> [] | Some f \<Rightarrow> [(f, name person)]))"
  from par have "e \<in> set (f (n, p))"
    by (auto simp: e f_def)
  with np have "e \<in> (\<Union>x\<in>set people. set (f x))" by blast
  then show "e \<in> set (parent_edges people)"
    by (simp add: parent_edges_def f_def)
qed

text \<open>
  Claim C1. For every population that \<open>load_data\<close> can build (a dictionary whose records
  carry their key as name) whose members form a valid parent-forest (zero or two parents,
  both in the population, no member its own ancestor) and have no evidence, every call of
  \<open>joint_probability\<close> in the loops of \<open>main\<close> returns a value, and these values, one
  for every \<open>have_trait\<close> subset, every \<open>one_gene\<close> subset and every \<open>two_genes\<close>
  subset of the names outside \<open>one_gene\<close>, sum to exactly 1.
\<close>

theorem total_joint_probability_is_one:
  assumes wf: "well_formed_people people" and forest: "valid_forest people"
    and ne: "no_evidence people"
  shows "total_joint_probability people = Inr 1"
proof -
  let ?P = "set (map snd people)"
  from wf have dis: "distinct (map fst people)" by (simp add: well_formed_people_def)
  have names: "map name (map snd people) = map fst people"
    by (rule well_formed_names [OF wf])
  have dn: "distinct (map name (map snd people))"
    unfolding names by (rule dis)
  from dn have "distinct (map snd people) \<and> inj_on name ?P"
    by (simp only: distinct_map)
  then have dP: "distinct (map snd people)" and inj: "inj_on name ?P"
    by blast+
  have img: "name ` ?P = set (map fst people)"
    using names by (metis set_map)
  from forest have "acyclic (set (parent_edges people))" by (simp add: valid_forest_def)
  then have ac: "acyclic (edges ?P)"
    by (rule acyclic_subset) (rule edges_parent_edges)
  have "(\<Sum>(U, W, T)\<leftarrow>enumerated_triples people.
            \<Prod>person\<leftarrow>map snd people. person_factor person U W T)
        = triple_sum (set (map fst people))
            (\<lambda>U W T. \<Prod>person\<leftarrow>map snd people. person_factor person U W T)"
    by (rule sum_list_enumerated_triples [OF ne dis])
  also have "\<dots> = triple_sum (name ` ?P) (\<lambda>U W T. \<Prod>p\<in>?P. person_factor p U W T)"
    by (simp only: img prod.distinct_set_conv_list [OF dP])
  also have "\<dots> = 1"
    by (rule triple_sum_members [OF _ inj ac]) simp
  finally show ?thesis
    by (simp only: total_joint_probability_value)
qed

theorem total_joint_probability_is_one_witness:
  "well_formed_people family \<and> valid_forest family \<and> no_evidence family
   \<and> total_joint_probability family = Inr 1"
proof -
  have w: "well_formed_people family"
    by (simp add: well_formed_people_def family_def)
  have e: "set (parent_edges family) = set [(''Lily'', ''Harry''), (''James'', ''Harry'')]"
    by (simp add: parent_edges_def family_def)
  have "acyclic (set [(''Lily'', ''Harry''), (''James'', ''Harry'')])"
    by code_simp
  then have v: "valid_forest family"
    unfolding valid_forest_def e
    by (simp add: family_def zero_or_two_parents_def parent_in_population_def)
  have n: "no_evidence family"
    by (simp add: no_evidence_def family_def)
  show ?thesis
    using w v n total_joint_probability_is_one [OF w v n] by blast
qed

text \<open>
  Both hypotheses on the population are needed: a member that is its own parent, or a
  member with evidence, gives another sum.
\<close>

lemma total_joint_probability_own_parent:
  "total_joint_probability
     [(''A'', \<lparr>name = ''A'', mother = Some ''A'', father = Some ''A'', trait = None\<rparr>)]
   = Inr (12301 / 5000)"
  by code_simp

lemma total_joint_probability_with_evidence:
  "total_joint_probability
     [(''A'', \<lparr>name = ''A'', mother = None, father = None, trait = Some True\<rparr>)]
   = Inr (329 / 10000)"
  by code_simp

section \<open>Normalisation\<close>

lemma rescale_sum: "sum_values d \<noteq> 0 \<Longrightarrow> sum_values (rescale d) = 1"
proof -
  assume nz: "sum_values d \<noteq> 0"
  have "sum_list (map (\<lambda>x. snd x / c) d) = sum_list (map snd d) / c" for c :: rat
    by (induction d) (simp_all add: add_divide_distrib)
  then have "sum_values (rescale d) = sum_values d / sum_values d"
    by (simp add: sum_values_def rescale_def comp_def case_prod_unfold)
  with nz show ?thesis by simp
qed

lemma rescale_keys: "map fst (rescale d) = map fst d"
  by (simp add: rescale_def comp_def case_prod_unfold)

lemma gene_shape_cases:
  assumes "map fst (g :: (nat \<times> rat) list) = [2, 1, 0]"
  obtains a b c where "g = [(2, a), (1, b), (0, c)]"
  using assms by (auto simp: map_eq_Cons_conv)

lemma trait_shape_cases:
  assumes "map fst (t :: (bool \<times> rat) list) = [True, False]"
  obtains a b where "t = [(True, a), (False, b)]"
  using assms by (auto simp: map_eq_Cons_conv)

lemma normalize_member_value:
  assumes sh: "marginals_shape m"
    and gz: "sum_values (gene_probs m) \<noteq> 0" and tz: "sum_values (trait_probs m) \<noteq> 0"
  shows "normalize_member m =
           Inr \<lparr>gene_probs = rescale (gene_probs m), trait_probs = rescale (trait_probs m)\<rparr>"
proof -
  from sh obtain a b c where g: "gene_probs m = [(2, a), (1, b), (0, c)]"
    by (auto simp: marginals_shape_def elim: gene_shape_cases)
  from sh obtain u v where t: "trait_probs m = [(True, u), (False, v)]"
    by (auto simp: marginals_shape_def elim: trait_shape_cases)
  show ?thesis
    using gz tz
    by (simp add: normalize_member_def g t Let_def bind_err_def lookup_def py_div_def
        rescale_def)
qed

lemma normalize_value:
  assumes "\<forall>(n, m) \<in> set probabilities.
             marginals_shape m \<and> sum_values (gene_probs m) \<noteq> 0 \<and> sum_values (trait_probs m) \<noteq> 0"
  shows "normalize probabilities =
           Inr (map (\<lambda>(n, m). (n, \<lparr>gene_probs = rescale (gene_probs m),
                                    trait_probs = rescale (trait_probs m)\<rparr>)) probabilities)"
  using assms
proof (induction probabilities)
  case Nil
  show ?case by (simp add: normalize_def)
next
  case (Cons e rest)
  obtain n m where e: "e = (n, m)" by (cases e)
  from Cons.prems have hd: "marginals_shape m" "sum_values (gene_probs m) \<noteq> 0"
    "sum_values (trait_probs m) \<noteq> 0"
    by (simp_all add: e)
  from Cons.prems have "normalize rest =
           Inr (map (\<lambda>(n, m). (n, \<lparr>gene_probs = rescale (gene_probs m),
                                    trait_probs = rescale (trait_probs m)\<rparr>)) rest)"
    by (intro Cons.IH) simp
  then show ?case
    by (simp add: normalize_def e normalize_member_value [OF hd] bind_err_def)
qed

text \<open>
  Claim C3. When every member's accumulator has the keys \<open>main\<close> gave it, and its gene
  weights and its trait weights each have a nonzero sum, \<open>normalize\<close> raises nothing, keeps
  the members, and leaves for every member three gene weights that sum to 1 and two trait
  weights that sum to 1; each distribution is rescaled by its own sum only.
\<close>

theorem normalize_sums_to_one:
  assumes "list_all (\<lambda>(n, m). marginals_shape m) probabilities"
    and "list_all (\<lambda>(n, m). sum_values (gene_probs m) \<noteq> 0
                             \<and> sum_values (trait_probs m) \<noteq> 0) probabilities"
  shows "\<exists>result. normalize probabilities = Inr result
           \<and> map fst result = map fst probabilities
           \<and> list_all (\<lambda>(n, m'). marginals_shape m'
                 \<and> sum_values (gene_probs m') = 1 \<and> sum_values (trait_probs m') = 1) result
           \<and> list_all2 (\<lambda>(n, m) (n', m'). n' = n
                 \<and> gene_probs m' = rescale (gene_probs m)
                 \<and> trait_probs m' = rescale (trait_probs m)) probabilities result"
proof -
  let ?f = "\<lambda>(n, m). (n, \<lparr>gene_probs = rescale (gene_probs m),
                            trait_probs = rescale (trait_probs m)\<rparr>)"
  have all: "\<forall>(n, m) \<in> set probabilities.
             marginals_shape m \<and> sum_values (gene_probs m) \<noteq> 0 \<and> sum_values (trait_probs m) \<noteq> 0"
    using assms by (fastforce simp: list_all_iff)
  have 1: "normalize probabilities = Inr (map ?f probabilities)"
    by (rule normalize_value [OF all])
  have 2: "map fst (map ?f probabilities) = map fst probabilities"
    by (simp add: comp_def case_prod_unfold)
  have 3: "list_all (\<lambda>(n, m'). marginals_shape m'
                 \<and> sum_values (gene_probs m') = 1 \<and> sum_values (trait_probs m') = 1)
             (map ?f probabilities)"
    using all by (auto simp: list_all_iff rescale_sum marginals_shape_def rescale_keys)
  have 4: "list_all2 (\<lambda>(n, m) (n', m'). n' = n
                 \<and> gene_probs m' = rescale (gene_probs m)
                 \<and> trait_probs m' = rescale (trait_probs m)) probabilities (map ?f probabilities)"
    by (simp add: list_all2_map2 list_all2_same case_prod_unfold)
  from 1 2 3 4 show ?thesis by blast
qed

theorem normalize_sums_to_one_witness:
  "list_all (\<lambda>(n, m). marginals_shape m) family_weights
   \<and> list_all (\<lambda>(n, m). sum_values (gene_probs m) \<noteq> 0
                         \<and> sum_values (trait_probs m) \<noteq> 0) family_weights
   \<and> (\<exists>result. normalize family_weights = Inr result
           \<and> map fst result = map fst family_weights
           \<and> list_all (\<lambda>(n, m'). marginals_shape m'
                 \<and> sum_values (gene_probs m') = 1 \<and> sum_values (trait_probs m') = 1) result
           \<and> list_all2 (\<lambda>(n, m) (n', m'). n' = n
                 \<and> gene_probs m' = rescale (gene_probs m)
                 \<and> trait_probs m' = rescale (trait_probs m)) family_weights result)"
proof -
  have s: "list_all (\<lambda>(n, m). marginals_shape m) family_weights"
    by (simp add: family_weights_def marginals_shape_def)
  have z: "list_all (\<lambda>(n, m). sum_values (gene_probs m) \<noteq> 0
                         \<and> sum_values (trait_probs m) \<noteq> 0) family_weights"
    by (simp add: family_weights_def sum_values_def)
  show ?thesis
    using s z normalize_sums_to_one [OF s z] by blast
qed

lemma normalize_family_weights:
  "normalize family_weights =
     Inr [(''Harry'', \<lparr>gene_probs = [(2, 1 / 5), (1, 3 / 5), (0, 1 / 5)],
                  trait_probs = [(True, 2 / 5), (False, 3 / 5)]\<rparr>),
      (''James'', \<lparr>gene_probs = [(2, 0), (1, 1 / 2), (0, 1 / 2)],
                  trait_probs = [(True, 1), (False, 0)]\<rparr>)]"
  by (simp add: normalize_def normalize_member_def family_weights_def Let_def bind_err_def
      lookup_def py_div_def sum_values_def)

text \<open>With all weights zero the division raises.\<close>

lemma normalize_zero:
  "normalize [(''A'', \<lparr>gene_probs = [(2, 0), (1, 0), (0, 0)],
                  trait_probs = [(True, 0), (False, 0)]\<rparr>)] = Inl ZeroDivisionError"
  by (simp add: normalize_def normalize_member_def Let_def bind_err_def
      lookup_def py_div_def sum_values_def)

end
